theory Spec2Isabelle
  imports Complex_Main
begin

section \<open>Hydropathy index plotter: the computational core\<close>

text \<open>
  A shallow embedding of \<^verbatim>\<open>src/WebApp/hydropathy_plot.py\<close>: the sequence preview
  (\<^verbatim>\<open>Preview_Sequence\<close>), the windowed score (\<^verbatim>\<open>Hydropathicity_value_calc\<close>) and the
  profile builder (\<^verbatim>\<open>Hydropathicity_array_gen\<close>).

  Numbers. The source computes in IEEE double precision (numpy \<^verbatim>\<open>float64\<close>). The model
  computes in exact real arithmetic: a \<^verbatim>\<open>float64\<close> that is finite is a \<^typ>\<open>real\<close>, and
  the rounding error of each floating-point operation is not modelled. A division by zero,
  which numpy answers with \<^verbatim>\<open>nan\<close> or \<^verbatim>\<open>inf\<close> and a warning (no exception), is the value
  \<open>NonFinite\<close>. Python's unbounded \<^verbatim>\<open>int\<close> is \<^typ>\<open>int\<close>, a \<^verbatim>\<open>str\<close> is a \<^typ>\<open>string\<close>.
\<close>

subsection \<open>Data\<close>

text \<open>The exceptions the core can raise: a dictionary lookup of an absent key, an array
  index out of bounds, and \<^verbatim>\<open>np.geomspace\<close> on an endpoint that is zero.\<close>

datatype error = KeyError char | IndexError | ValueError

datatype np_float = Finite real | NonFinite

definition Kyte_Doolittle_scale :: "char \<rightharpoonup> real" where
  "Kyte_Doolittle_scale = map_of
     [(CHR ''G'', - 0.4),
      (CHR ''A'', 1.8),
      (CHR ''V'', 4.2),
      (CHR ''L'', 3.8),
      (CHR ''I'', 4.5),
      (CHR ''P'', - 1.6),
      (CHR ''C'', 2.5),
      (CHR ''M'', 1.9),
      (CHR ''S'', - 0.8),
      (CHR ''T'', - 0.7),
      (CHR ''N'', - 3.5),
      (CHR ''Q'', - 3.5),
      (CHR ''F'', 2.8),
      (CHR ''Y'', - 1.3),
      (CHR ''W'', - 0.9),
      (CHR ''D'', - 3.5),
      (CHR ''E'', - 3.5),
      (CHR ''K'', - 3.9),
      (CHR ''R'', - 4.5),
      (CHR ''H'', - 3.2)]"

definition center_weight :: real where
  "center_weight = 100"

subsection \<open>The Python and numpy primitives the source calls\<close>

text \<open>A slice \<^verbatim>\<open>xs[start:stop]\<close>: a negative bound counts from the end, and both bounds
  are clamped to \<open>[0, len]\<close>; nothing is raised out of range.\<close>

definition slice_bound :: "int \<Rightarrow> int \<Rightarrow> nat" where
  "slice_bound n i =
     (let j = (if i < 0 then i + n else i)
      in if j < 0 then 0 else if n < j then nat n else nat j)"

definition py_slice :: "'a list \<Rightarrow> int \<Rightarrow> int \<Rightarrow> 'a list" where
  "py_slice xs start stop =
     (let n = int (length xs); lo = slice_bound n start; hi = slice_bound n stop
      in take (hi - lo) (drop lo xs))"

text \<open>\<^verbatim>\<open>sep.join(parts)\<close>.\<close>

fun join :: "string \<Rightarrow> string list \<Rightarrow> string" where
  "join sep [] = []"
| "join sep [x] = x"
| "join sep (x # y # ys) = x @ sep @ join sep (y # ys)"

text \<open>\<^verbatim>\<open>np.arange(start, stop)\<close> on integers: \<open>start, start + 1, ..., stop - 1\<close>.\<close>

definition arange :: "int \<Rightarrow> int \<Rightarrow> int list" where
  "arange start stop = [start..stop - 1]"

text \<open>\<^verbatim>\<open>np.linspace(start, stop, num)\<close>: \<open>arange(num) * step + start\<close> with
  \<open>step = (stop - start) / (num - 1)\<close>, the last entry then set to \<open>stop\<close>; a single
  sample is \<open>start\<close>.\<close>

definition linspace :: "real \<Rightarrow> real \<Rightarrow> nat \<Rightarrow> real list" where
  "linspace start stop num =
     (if num = 0 then []
      else if num = 1 then [start]
      else (map (\<lambda>i. real i * ((stop - start) / real (num - 1)) + start) [0..<num])
             [num - 1 := stop])"

text \<open>\<^verbatim>\<open>np.geomspace(start, stop, num)\<close>: raises \<^verbatim>\<open>ValueError\<close> when an endpoint is zero;
  otherwise \<open>10 ** linspace(log10 start, log10 stop, num)\<close>, the first and last entries then
  set to \<open>start\<close> and \<open>stop\<close>. For a negative endpoint numpy's answer depends on its version
  (\<^verbatim>\<open>nan\<close> entries, or a rotation of the sign); the model is meant for positive endpoints.\<close>

definition geomspace :: "real \<Rightarrow> real \<Rightarrow> nat \<Rightarrow> error + real list" where
  "geomspace start stop num =
     (if start = 0 \<or> stop = 0 then Inl ValueError
      else
        let result = map (\<lambda>y. 10 powr y) (linspace (log 10 start) (log 10 stop) num);
            result = (if 0 < num then result[0 := start] else result);
            result = (if 1 < num then result[num - 1 := stop] else result)
        in Inr result)"

text \<open>\<^verbatim>\<open>round(x, decimals)\<close> on a numpy float: \<open>rint(x * 10 ** decimals) / 10 ** decimals\<close>,
  where \<open>rint\<close> rounds to the nearest integer and a tie to the even one.\<close>

definition rint :: "real \<Rightarrow> int" where
  "rint x =
     (let f = \<lfloor>x\<rfloor>; d = x - of_int f
      in if d < 1 / 2 then f
         else if 1 / 2 < d then f + 1
         else if even f then f else f + 1)"

definition np_round :: "real \<Rightarrow> nat \<Rightarrow> real" where
  "np_round x decimals = of_int (rint (x * 10 ^ decimals)) / 10 ^ decimals"

subsection \<open>\<^verbatim>\<open>Preview_Sequence\<close>\<close>

text \<open>The loop \<^verbatim>\<open>for index in range(0, len(Seq), 10)\<close>, with the list \<^verbatim>\<open>output\<close> it appends to.\<close>

function Preview_loop :: "string \<Rightarrow> nat \<Rightarrow> string list \<Rightarrow> string list" where
  "Preview_loop Seq index output =
     (if index < length Seq
      then Preview_loop Seq (index + 10)
             (output @
               [if index mod 60 \<noteq> 0
                then py_slice Seq (int index) (int index + 10)
                else CHR 0x0A # py_slice Seq (int index) (int index + 10)])
      else output)"
  by pat_completeness auto
termination
  by (relation "measure (\<lambda>(Seq, index, output). length Seq - index)") auto

definition Preview_Sequence :: "string \<Rightarrow> string" where
  "Preview_Sequence Seq = join ''    '' (Preview_loop Seq 0 [])"

subsection \<open>\<^verbatim>\<open>Hydropathicity_value_calc\<close>\<close>

text \<open>The two weight vectors, \<^verbatim>\<open>np.concatenate((rising, falling[1:]))\<close>, from the length of
  the segment.\<close>

definition Linear_weights :: "nat \<Rightarrow> real \<Rightarrow> real list" where
  "Linear_weights seq_len edge_weight =
     linspace edge_weight center_weight (seq_len div 2 + 1)
     @ tl (linspace center_weight edge_weight (seq_len div 2 + 1))"

definition Exponential_weights :: "nat \<Rightarrow> real \<Rightarrow> error + real list" where
  "Exponential_weights seq_len edge_weight =
     (case geomspace edge_weight center_weight (seq_len div 2 + 1) of
        Inl e \<Rightarrow> Inl e
      | Inr rising \<Rightarrow>
          (case geomspace center_weight edge_weight (seq_len div 2 + 1) of
             Inl e \<Rightarrow> Inl e
           | Inr falling \<Rightarrow> Inr (rising @ tl falling)))"

text \<open>The loop \<^verbatim>\<open>for index, AA in enumerate(AA_seq_segment)\<close>: the lookup in the scale is
  evaluated before the weight is read.\<close>

fun hydropathy_loop :: "(nat \<times> char) list \<Rightarrow> real list \<Rightarrow> real \<Rightarrow> error + real" where
  "hydropathy_loop [] weights hydropathy_index = Inr hydropathy_index"
| "hydropathy_loop ((index, AA) # rest) weights hydropathy_index =
     (case Kyte_Doolittle_scale AA of
        None \<Rightarrow> Inl (KeyError AA)
      | Some score \<Rightarrow>
          if index < length weights
          then hydropathy_loop rest weights (hydropathy_index + score * weights ! index)
          else Inl IndexError)"

text \<open>The loop and \<^verbatim>\<open>round(hydropathy_index / np.sum(weights), 3)\<close>, the tail that both
  branches of the source share.\<close>

definition avg_hydropathy_index :: "string \<Rightarrow> real list \<Rightarrow> error + np_float" where
  "avg_hydropathy_index AA_seq_segment weights =
     (case hydropathy_loop (enumerate 0 AA_seq_segment) weights 0 of
        Inl e \<Rightarrow> Inl e
      | Inr hydropathy_index \<Rightarrow>
          if sum_list weights = 0 then Inr NonFinite
          else Inr (Finite (np_round (hydropathy_index / sum_list weights) 3)))"

definition Hydropathicity_value_calc :: "string \<Rightarrow> real \<Rightarrow> string \<Rightarrow> error + np_float" where
  "Hydropathicity_value_calc AA_seq_segment Edge_weight Model =
     (let seq_len = length AA_seq_segment in
      if Model = ''Linear Variation''
      then avg_hydropathy_index AA_seq_segment (Linear_weights seq_len Edge_weight)
      else
        (case Exponential_weights seq_len Edge_weight of
           Inl e \<Rightarrow> Inl e
         | Inr weights \<Rightarrow> avg_hydropathy_index AA_seq_segment weights))"

subsection \<open>\<^verbatim>\<open>Hydropathicity_array_gen\<close>\<close>

text \<open>The segment scored at a centre:
  \<^verbatim>\<open>AA_seq[index - (Window_size // 2): index + (Window_size // 2 + 1)]\<close>.\<close>

definition window :: "string \<Rightarrow> int \<Rightarrow> int \<Rightarrow> string" where
  "window AA_seq Window_size index =
     py_slice AA_seq (index - Window_size div 2) (index + (Window_size div 2 + 1))"

text \<open>The loop \<^verbatim>\<open>for index in AA_range\<close>, with the list it appends to; an exception of the
  score calculator leaves the loop and the function.\<close>

fun array_loop ::
  "string \<Rightarrow> int \<Rightarrow> real \<Rightarrow> string \<Rightarrow> int list \<Rightarrow> np_float list \<Rightarrow> error + np_float list" where
  "array_loop AA_seq Window_size EDGE_weight model [] hyrdopathicity_array =
     Inr hyrdopathicity_array"
| "array_loop AA_seq Window_size EDGE_weight model (index # rest) hyrdopathicity_array =
     (case Hydropathicity_value_calc (window AA_seq Window_size index) EDGE_weight model of
        Inl e \<Rightarrow> Inl e
      | Inr v \<Rightarrow>
          array_loop AA_seq Window_size EDGE_weight model rest (hyrdopathicity_array @ [v]))"

definition Hydropathicity_array_gen ::
  "string \<Rightarrow> int \<Rightarrow> real \<Rightarrow> string \<Rightarrow> error + (np_float list \<times> int list)" where
  "Hydropathicity_array_gen AA_seq Window_size EDGE_weight model =
     (let AA_range = arange (Window_size div 2) (int (length AA_seq) - Window_size div 2)
      in case array_loop AA_seq Window_size EDGE_weight model AA_range [] of
           Inl e \<Rightarrow> Inl e
         | Inr hyrdopathicity_array \<Rightarrow> Inr (hyrdopathicity_array, AA_range))"

section \<open>The properties the specification states\<close>


text \<open>The score the specification states for a segment and a weight vector:
  \<open>sum(scale[segment[i]] * weights[i] for i in 0..windowSize) / sum(weights)\<close>, rounded to
  three decimal places.\<close>

definition scoreWindow :: "string \<Rightarrow> real list \<Rightarrow> real" where
  "scoreWindow segment weights =
     np_round
       (sum_list (map (\<lambda>i. the (Kyte_Doolittle_scale (segment ! i)) * weights ! i)
                      [0..<length segment])
        / sum_list weights) 3"

text \<open>The preview the specification states: the sequence cut into groups of 10 symbols,
  the groups joined by 4 spaces, and a line break put before the group that starts at
  residue index \<open>i\<close> when \<open>break_before i\<close>.\<close>

definition preview_chunks :: "(nat \<Rightarrow> bool) \<Rightarrow> string \<Rightarrow> string" where
  "preview_chunks break_before Seq =
     join ''    ''
       (map (\<lambda>k. (if break_before (10 * k) then [CHR 0x0A] else []) @ take 10 (drop (10 * k) Seq))
            [0..<(length Seq + 9) div 10])"

section \<open>Basic facts\<close>

subsection \<open>The weight vectors\<close>

lemma length_linspace: "length (linspace a b n) = n"
  by (simp add: linspace_def)

lemma linspace_nth:
  assumes "1 < n" and "i < n"
  shows "linspace a b n ! i = real i * ((b - a) / real (n - 1)) + a"
proof (cases "i = n - 1")
  case True
  with assms show ?thesis
    by (simp add: linspace_def)
next
  case False
  with assms show ?thesis
    by (simp add: linspace_def)
qed

lemma geomspace_Inr:
  assumes "a \<noteq> 0" and "b \<noteq> 0"
  shows "\<exists>ws. geomspace a b n = Inr ws \<and> length ws = n"
  using assms by (simp add: geomspace_def Let_def length_linspace)

lemma geomspace_zero: "a = 0 \<or> b = 0 \<Longrightarrow> geomspace a b n = Inl ValueError"
  by (simp add: geomspace_def)

lemma geomspace_nth:
  assumes "0 < a" and "0 < b" and "1 < n" and "geomspace a b n = Inr ws" and "i < n"
  shows "ws ! i = 10 powr (real i * ((log 10 b - log 10 a) / real (n - 1)) + log 10 a)"
proof -
  let ?ls = "linspace (log 10 a) (log 10 b) n"
  from assms have ws: "ws = (map (\<lambda>y. 10 powr y) ?ls)[0 := a, n - 1 := b]"
    by (simp add: geomspace_def Let_def)
  consider "i = n - 1" | "i = 0" "i \<noteq> n - 1" | "i \<noteq> 0" "i \<noteq> n - 1" by blast
  then show ?thesis
  proof cases
    case 1
    with assms show ?thesis
      by (simp add: ws length_linspace)
  next
    case 2
    with assms show ?thesis
      by (simp add: ws length_linspace)
  next
    case 3
    with assms show ?thesis
      by (simp add: ws length_linspace linspace_nth)
  qed
qed

lemma halves_nth:
  assumes "length up = Suc h" and "length down = Suc h" and "i \<le> 2 * h"
  shows "(up @ tl down) ! i = (if i \<le> h then up ! i else down ! (i - h))"
proof (cases "i \<le> h")
  case True
  with assms show ?thesis by (simp add: nth_append)
next
  case False
  then have "Suc (i - Suc h) = i - h" by simp
  with False assms show ?thesis by (simp add: nth_append nth_tl)
qed

lemma interpolate_mirror:
  assumes "0 < h" and "i \<le> h"
  shows "real (h - i) * ((e - c) / real h) + c = real i * ((c - e) / real h) + (e::real)"
  using assms by (simp add: field_simps)

lemma length_Linear_weights: "length (Linear_weights n e) = 2 * (n div 2) + 1"
  by (simp add: Linear_weights_def length_linspace)

lemma Linear_weights_nth:
  assumes "0 < n div 2" and "i \<le> 2 * (n div 2)"
  shows "Linear_weights n e ! i
         = real (if i \<le> n div 2 then i else 2 * (n div 2) - i) * ((center_weight - e) / real (n div 2)) + e"
proof -
  let ?h = "n div 2"
  have "Linear_weights n e ! i
        = (if i \<le> ?h then linspace e center_weight (Suc ?h) ! i
           else linspace center_weight e (Suc ?h) ! (i - ?h))"
    using assms(2) by (simp add: Linear_weights_def halves_nth length_linspace)
  also have "\<dots> = real (if i \<le> ?h then i else 2 * ?h - i) * ((center_weight - e) / real ?h) + e"
  proof (cases "i \<le> ?h")
    case True
    with assms show ?thesis by (simp add: linspace_nth)
  next
    case False
    with assms have idx: "?h - (2 * ?h - i) = i - ?h" and le: "2 * ?h - i \<le> ?h"
      and lt: "i - ?h < Suc ?h"
      by simp_all
    have "linspace center_weight e (Suc ?h) ! (i - ?h)
          = real (i - ?h) * ((e - center_weight) / real ?h) + center_weight"
      using linspace_nth [of "Suc ?h" "i - ?h" center_weight e] assms(1) lt by simp
    also have "\<dots> = real (2 * ?h - i) * ((center_weight - e) / real ?h) + e"
      using interpolate_mirror [OF assms(1) le, of e center_weight] by (simp only: idx)
    finally show ?thesis using False by simp
  qed
  finally show ?thesis .
qed

lemma Exponential_weights_Inr:
  assumes "e \<noteq> 0"
  shows "\<exists>ws. Exponential_weights n e = Inr ws \<and> length ws = 2 * (n div 2) + 1"
proof -
  from assms geomspace_Inr [of e center_weight "n div 2 + 1"]
  obtain up where up: "geomspace e center_weight (n div 2 + 1) = Inr up" "length up = n div 2 + 1"
    by (auto simp: center_weight_def)
  from assms geomspace_Inr [of center_weight e "n div 2 + 1"]
  obtain down where down: "geomspace center_weight e (n div 2 + 1) = Inr down" "length down = n div 2 + 1"
    by (auto simp: center_weight_def)
  from up down show ?thesis
    by (simp add: Exponential_weights_def)
qed

lemma Exponential_weights_zero: "Exponential_weights n 0 = Inl ValueError"
  by (simp add: Exponential_weights_def geomspace_zero)

lemma Exponential_weights_nth:
  assumes "0 < e" and "0 < n div 2" and "i \<le> 2 * (n div 2)"
    and "Exponential_weights n e = Inr ws"
  shows "ws ! i = 10 powr (real (if i \<le> n div 2 then i else 2 * (n div 2) - i)
                           * ((log 10 center_weight - log 10 e) / real (n div 2)) + log 10 e)"
proof -
  let ?h = "n div 2"
  have c: "0 < center_weight" by (simp add: center_weight_def)
  from assms(1) geomspace_Inr [of e center_weight "?h + 1"]
  obtain up where up: "geomspace e center_weight (?h + 1) = Inr up" "length up = Suc ?h"
    by (auto simp: center_weight_def)
  from assms(1) geomspace_Inr [of center_weight e "?h + 1"]
  obtain down where down: "geomspace center_weight e (?h + 1) = Inr down" "length down = Suc ?h"
    by (auto simp: center_weight_def)
  from up down assms(4) have ws: "ws = up @ tl down"
    by (simp add: Exponential_weights_def)
  have "ws ! i = (if i \<le> ?h then up ! i else down ! (i - ?h))"
    using assms(3) up(2) down(2) by (simp add: ws halves_nth)
  also have "\<dots> = 10 powr (real (if i \<le> ?h then i else 2 * ?h - i)
                        * ((log 10 center_weight - log 10 e) / real ?h) + log 10 e)"
  proof (cases "i \<le> ?h")
    case True
    with assms geomspace_nth [OF assms(1) c _ up(1), of i] show ?thesis by simp
  next
    case False
    with assms have idx: "?h - (2 * ?h - i) = i - ?h" and le: "2 * ?h - i \<le> ?h"
      and lt: "i - ?h < ?h + 1"
      by simp_all
    have "down ! (i - ?h)
          = 10 powr (real (i - ?h) * ((log 10 e - log 10 center_weight) / real ?h)
                     + log 10 center_weight)"
      using geomspace_nth [OF c assms(1) _ down(1) lt] assms(2) by simp
    also have "real (i - ?h) * ((log 10 e - log 10 center_weight) / real ?h)
                 + log 10 center_weight
               = real (2 * ?h - i) * ((log 10 center_weight - log 10 e) / real ?h) + log 10 e"
      using interpolate_mirror [OF assms(2) le, of "log 10 e" "log 10 center_weight"]
      by (simp only: idx)
    finally show ?thesis using False by simp
  qed
  finally show ?thesis .
qed

subsection \<open>The scoring loop\<close>

lemma hydropathy_loop_total:
  assumes "\<forall>(i, AA) \<in> set ps. AA \<in> dom Kyte_Doolittle_scale \<and> i < length ws"
  shows "hydropathy_loop ps ws acc
         = Inr (acc + sum_list (map (\<lambda>(i, AA). the (Kyte_Doolittle_scale AA) * ws ! i) ps))"
  using assms
proof (induction ps arbitrary: acc)
  case Nil
  then show ?case by simp
next
  case (Cons p ps)
  obtain i AA where p: "p = (i, AA)" by (cases p)
  from Cons.prems p obtain s where s: "Kyte_Doolittle_scale AA = Some s" and i: "i < length ws"
    by auto
  from Cons.prems
  have "\<forall>(i, AA) \<in> set ps. AA \<in> dom Kyte_Doolittle_scale \<and> i < length ws"
    by simp
  from Cons.IH [OF this, of "acc + s * ws ! i"] s i show ?case
    by (simp add: p)
qed

lemma enumerate_sum:
  "map (\<lambda>(i, AA). f AA * ws ! i) (enumerate 0 seg)
   = map (\<lambda>i. f (seg ! i) * (ws ! i :: real)) [0..<length seg]"
  by (rule nth_equalityI) (simp_all add: enumerate_eq_zip)

lemma hydropathy_loop_known:
  assumes "set seg \<subseteq> dom Kyte_Doolittle_scale" and "length seg \<le> length ws"
  shows "hydropathy_loop (enumerate 0 seg) ws 0
         = Inr (sum_list (map (\<lambda>i. the (Kyte_Doolittle_scale (seg ! i)) * ws ! i)
                              [0..<length seg]))"
proof -
  from assms
  have "\<forall>(i, AA) \<in> set (enumerate 0 seg). AA \<in> dom Kyte_Doolittle_scale \<and> i < length ws"
  proof -
    have "AA \<in> dom Kyte_Doolittle_scale \<and> i < length ws"
      if "(i, AA) \<in> set (enumerate 0 seg)" for i AA
    proof -
      from that have i: "i < length seg" and AA: "seg ! i = AA"
        by (simp_all add: in_set_enumerate_eq)
      from i have "seg ! i \<in> set seg" by simp
      with assms i AA show ?thesis by auto
    qed
    then show ?thesis by auto
  qed
  from hydropathy_loop_total [OF this, of 0] show ?thesis
    by (simp add: enumerate_sum [of "\<lambda>AA. the (Kyte_Doolittle_scale AA)"])
qed

lemma hydropathy_loop_unknown:
  assumes "set pre \<subseteq> dom Kyte_Doolittle_scale" and "Kyte_Doolittle_scale c = None"
    and "k + length pre \<le> length ws"
  shows "hydropathy_loop (enumerate k (pre @ c # post)) ws acc = Inl (KeyError c)"
  using assms
proof (induction pre arbitrary: k acc)
  case Nil
  then show ?case by simp
next
  case (Cons a pre)
  from Cons.prems obtain s where s: "Kyte_Doolittle_scale a = Some s" by auto
  from Cons.prems have "set pre \<subseteq> dom Kyte_Doolittle_scale" "Suc k + length pre \<le> length ws"
    "k < length ws"
    by simp_all
  with Cons.IH [of "Suc k" "acc + s * ws ! k"] Cons.prems(2) s show ?case
    by simp
qed

lemma avg_hydropathy_index_known:
  assumes "set seg \<subseteq> dom Kyte_Doolittle_scale" and "length seg \<le> length ws"
    and "sum_list ws \<noteq> 0"
  shows "avg_hydropathy_index seg ws = Inr (Finite (scoreWindow seg ws))"
  using assms hydropathy_loop_known [of seg ws]
  by (simp add: avg_hydropathy_index_def scoreWindow_def)

lemma avg_hydropathy_index_unknown:
  assumes "set pre \<subseteq> dom Kyte_Doolittle_scale" and "Kyte_Doolittle_scale c = None"
    and "length pre \<le> length ws"
  shows "avg_hydropathy_index (pre @ c # post) ws = Inl (KeyError c)"
  using assms hydropathy_loop_unknown [of pre c 0 ws post 0]
  by (simp add: avg_hydropathy_index_def)

subsection \<open>Positive weights\<close>

lemma sum_list_pos_real:
  assumes "ws \<noteq> []" and "\<forall>w \<in> set ws. (0::real) < w"
  shows "0 < sum_list ws"
  using assms
proof (induction ws)
  case Nil
  then show ?case by simp
next
  case (Cons w ws)
  then have "0 \<le> sum_list ws" by (intro sum_list_nonneg) (simp add: less_imp_le)
  with Cons.prems show ?case by simp
qed

lemma all_nth_pos:
  assumes "\<And>i. i < length ws \<Longrightarrow> (0::real) < ws ! i"
  shows "\<forall>w \<in> set ws. 0 < w"
  using assms by (auto simp: in_set_conv_nth)

lemma interpolate_pos:
  assumes "0 < h" and "j \<le> h" and "(0::real) < a" and "0 < b"
  shows "0 < real j * ((b - a) / real h) + a"
proof -
  have "real j * ((b - a) / real h) + a = (real j / real h) * b + (1 - real j / real h) * a"
    using assms(1) by (simp add: field_simps)
  moreover from assms have "0 \<le> real j / real h" "0 \<le> 1 - real j / real h" by simp_all
  moreover have "0 < (real j / real h) * b + (1 - real j / real h) * a"
  proof (cases "j = 0")
    case True
    with assms show ?thesis by simp
  next
    case False
    with assms have "0 < (real j / real h) * b" by simp
    moreover from assms \<open>0 \<le> 1 - real j / real h\<close> have "0 \<le> (1 - real j / real h) * a"
      by (intro mult_nonneg_nonneg) simp_all
    ultimately show ?thesis by linarith
  qed
  ultimately show ?thesis by simp
qed

lemma Linear_weights_pos:
  assumes "0 < e"
  shows "\<forall>w \<in> set (Linear_weights n e). 0 < w"
proof (cases "n div 2 = 0")
  case True
  with assms show ?thesis
    by (simp add: Linear_weights_def linspace_def)
next
  case False
  then have h: "0 < n div 2" by simp
  show ?thesis
  proof (rule all_nth_pos)
    fix i
    assume "i < length (Linear_weights n e)"
    then have i: "i \<le> 2 * (n div 2)" by (simp add: length_Linear_weights)
    then have "(if i \<le> n div 2 then i else 2 * (n div 2) - i) \<le> n div 2" by arith
    from interpolate_pos [OF h this assms, of center_weight]
    show "0 < Linear_weights n e ! i"
      by (simp only: Linear_weights_nth [OF h i]) (simp add: center_weight_def)
  qed
qed

lemma Exponential_weights_pos:
  assumes "0 < e" and "Exponential_weights n e = Inr ws"
  shows "\<forall>w \<in> set ws. 0 < w"
proof (cases "n div 2 = 0")
  case True
  with assms show ?thesis
    by (auto simp: Exponential_weights_def geomspace_def linspace_def center_weight_def)
next
  case False
  then have h: "0 < n div 2" by simp
  from assms(1) have "e \<noteq> 0" by simp
  from Exponential_weights_Inr [OF this, of n] assms(2)
  have len: "length ws = 2 * (n div 2) + 1" by simp
  show ?thesis
  proof (rule all_nth_pos)
    fix i
    assume "i < length ws"
    with len have i: "i \<le> 2 * (n div 2)" by simp
    show "0 < ws ! i"
      by (simp only: Exponential_weights_nth [OF assms(1) h i assms(2)]) simp
  qed
qed

lemma Linear_weights_sum: "0 < e \<Longrightarrow> 0 < sum_list (Linear_weights n e)"
proof (rule sum_list_pos_real)
  show "Linear_weights n e \<noteq> []"
    using length_Linear_weights [of n e] by auto
qed (rule Linear_weights_pos)

lemma Exponential_weights_sum:
  assumes "0 < e" and "Exponential_weights n e = Inr ws"
  shows "0 < sum_list ws"
proof (rule sum_list_pos_real)
  from assms(1) have "e \<noteq> 0" by simp
  from Exponential_weights_Inr [OF this, of n] assms(2)
  show "ws \<noteq> []" by auto
qed (rule Exponential_weights_pos [OF assms])

subsection \<open>Scaling the weights\<close>




subsection \<open>The score calculator: when it returns and when it raises\<close>

lemma half_length: "n \<le> 2 * (n div 2) + 1" for n :: nat
  by arith

lemma value_calc_returns:
  assumes "set seg \<subseteq> dom Kyte_Doolittle_scale" and "0 < e"
  shows "\<exists>v. Hydropathicity_value_calc seg e Model = Inr (Finite v)"
proof (cases "Model = ''Linear Variation''")
  case True
  with avg_hydropathy_index_known [OF assms(1), of "Linear_weights (length seg) e"]
    half_length [of "length seg"] Linear_weights_sum [OF assms(2), of "length seg"]
  show ?thesis
    by (simp add: Hydropathicity_value_calc_def length_Linear_weights)
next
  case False
  from assms(2) have "e \<noteq> 0" by simp
  from Exponential_weights_Inr [OF this, of "length seg"]
  obtain ws where ws: "Exponential_weights (length seg) e = Inr ws"
    and lws: "length ws = 2 * (length seg div 2) + 1"
    by blast
  with False avg_hydropathy_index_known [OF assms(1), of ws] half_length [of "length seg"]
    Exponential_weights_sum [OF assms(2) ws]
  show ?thesis
    by (simp add: Hydropathicity_value_calc_def)
qed

lemma value_calc_raises:
  assumes "set pre \<subseteq> dom Kyte_Doolittle_scale" and "Kyte_Doolittle_scale c = None"
    and "Model = ''Linear Variation'' \<or> e \<noteq> 0"
  shows "Hydropathicity_value_calc (pre @ c # post) e Model = Inl (KeyError c)"
proof (cases "Model = ''Linear Variation''")
  case True
  have "length pre \<le> length (Linear_weights (length (pre @ c # post)) e)"
    using half_length [of "length (pre @ c # post)"] by (simp add: length_Linear_weights)
  from avg_hydropathy_index_unknown [OF assms(1,2) this] True show ?thesis
    by (simp add: Hydropathicity_value_calc_def)
next
  case False
  with assms(3) have "e \<noteq> 0" by simp
  from Exponential_weights_Inr [OF this, of "length (pre @ c # post)"]
  obtain ws where ws: "Exponential_weights (length (pre @ c # post)) e = Inr ws"
    and lws: "length ws = 2 * (length (pre @ c # post) div 2) + 1"
    by blast
  have "length pre \<le> length ws"
    using half_length [of "length (pre @ c # post)"] lws by simp
  from avg_hydropathy_index_unknown [OF assms(1,2) this] False ws show ?thesis
    by (simp add: Hydropathicity_value_calc_def)
qed

lemma value_calc_zero_edge:
  assumes "Model \<noteq> ''Linear Variation''"
  shows "Hydropathicity_value_calc seg 0 Model = Inl ValueError"
  using assms by (simp add: Hydropathicity_value_calc_def Exponential_weights_zero)

subsection \<open>The profile loop\<close>

lemma array_loop_returns:
  assumes "\<forall>p \<in> set ps. Hydropathicity_value_calc (window s W p) e m = Inr (f p)"
  shows "array_loop s W e m ps acc = Inr (acc @ map f ps)"
  using assms by (induction ps arbitrary: acc) simp_all

lemma array_loop_raises:
  assumes "\<forall>q \<in> set qs. \<exists>v. Hydropathicity_value_calc (window s W q) e m = Inr v"
    and "Hydropathicity_value_calc (window s W p) e m = Inl err"
  shows "array_loop s W e m (qs @ p # rs) acc = Inl err"
  using assms by (induction qs arbitrary: acc) auto

lemma set_py_slice: "set (py_slice xs a b) \<subseteq> set xs"
  by (auto simp: py_slice_def Let_def dest: in_set_takeD in_set_dropD)

lemma set_window: "set (window s W p) \<subseteq> set s"
  by (simp add: window_def set_py_slice)

lemma window_nonneg:
  assumes "0 \<le> W" and "W div 2 \<le> p" and "p < int (length s) - W div 2"
  shows "window s W p = take (2 * nat (W div 2) + 1) (drop (nat (p - W div 2)) s)"
proof -
  define h where "h = W div 2"
  from assms(1) have h: "0 \<le> h" by (simp add: h_def)
  from assms(2,3) have p: "h \<le> p" "p < int (length s) - h" by (simp_all add: h_def)
  from h p have lo: "slice_bound (int (length s)) (p - h) = nat (p - h)"
    by (simp add: slice_bound_def Let_def)
  from h p have hi: "slice_bound (int (length s)) (p + (h + 1)) = nat (p + (h + 1))"
    by (simp add: slice_bound_def Let_def)
  from h p have "nat (p + (h + 1)) - nat (p - h) = 2 * nat h + 1"
    by linarith
  with lo hi have "py_slice s (p - h) (p + (h + 1)) = take (2 * nat h + 1) (drop (nat (p - h)) s)"
    by (simp add: py_slice_def Let_def)
  then show ?thesis
    by (simp only: window_def h_def)
qed

lemma avg_hydropathy_index_no_raise:
  assumes "set seg \<subseteq> dom Kyte_Doolittle_scale" and "length seg \<le> length ws"
  shows "\<exists>v. avg_hydropathy_index seg ws = Inr v"
  using hydropathy_loop_known [OF assms] by (simp add: avg_hydropathy_index_def)

lemma value_calc_no_raise:
  assumes "set seg \<subseteq> dom Kyte_Doolittle_scale" and "Model = ''Linear Variation'' \<or> e \<noteq> 0"
  shows "\<exists>v. Hydropathicity_value_calc seg e Model = Inr v"
proof (cases "Model = ''Linear Variation''")
  case True
  with avg_hydropathy_index_no_raise [OF assms(1), of "Linear_weights (length seg) e"]
    half_length [of "length seg"]
  show ?thesis
    by (simp add: Hydropathicity_value_calc_def length_Linear_weights)
next
  case False
  with assms(2) have "e \<noteq> 0" by simp
  from Exponential_weights_Inr [OF this, of "length seg"]
  obtain ws where ws: "Exponential_weights (length seg) e = Inr ws"
    and lws: "length ws = 2 * (length seg div 2) + 1"
    by blast
  with False avg_hydropathy_index_no_raise [OF assms(1), of ws] half_length [of "length seg"]
  show ?thesis
    by (simp add: Hydropathicity_value_calc_def)
qed

lemma window_before_unknown:
  assumes "i + 2 * H + 1 \<le> length pre"
  shows "take (2 * H + 1) (drop i (pre @ c # post)) = take (2 * H + 1) (drop i pre)"
  using assms by simp

lemma window_at_unknown:
  assumes "i \<le> length pre" and "length pre \<le> i + 2 * H"
  shows "take (2 * H + 1) (drop i (pre @ c # post))
         = drop i pre @ c # take (i + 2 * H - length pre) post"
proof -
  from assms have "2 * H + 1 - (length pre - i) = Suc (i + 2 * H - length pre)"
    by simp
  with assms show ?thesis by simp
qed

lemma array_gen_raises:
  assumes pre: "set pre \<subseteq> dom Kyte_Doolittle_scale" and c: "Kyte_Doolittle_scale c = None"
    and model: "Model = ''Linear Variation'' \<or> e \<noteq> 0"
    and W: "0 \<le> W" and long: "2 * (W div 2) < int (length (pre @ c # post))"
  shows "Hydropathicity_array_gen (pre @ c # post) W e Model = Inl (KeyError c)"
proof -
  define s where "s = pre @ c # post"
  define H where "H = nat (W div 2)"
  define i0 where "i0 = length pre - 2 * H"
  define p0 where "p0 = W div 2 + int i0"
  from W have h: "W div 2 = int H" by (simp add: H_def)
  have len: "length s = Suc (length pre + length post)" by (simp add: s_def)
  from long have n: "2 * H < length s" by (simp add: h s_def)
  have i0: "i0 \<le> length pre" "length pre \<le> i0 + 2 * H" "i0 + 2 * H < length s"
    using n len by (simp_all add: i0_def)
  have lo: "W div 2 \<le> p0" and hi: "p0 \<le> int (length s) - W div 2 - 1"
    using i0(3) by (simp_all add: p0_def h)
  have split: "[W div 2..int (length s) - W div 2 - 1]
               = [W div 2..p0 - 1] @ p0 # [p0 + 1..int (length s) - W div 2 - 1]"
    using lo hi by (rule upto_split3)
  have before: "\<exists>v. Hydropathicity_value_calc (window s W q) e Model = Inr v"
    if "q \<in> set [W div 2..p0 - 1]" for q
  proof -
    from that have q: "W div 2 \<le> q" "q < p0" by simp_all
    define i where "i = nat (q - W div 2)"
    from q have i: "i < i0" by (simp add: i_def p0_def)
    from q hi have "q < int (length s) - W div 2" by simp
    from window_nonneg [OF W q(1) this]
    have "window s W q = take (2 * H + 1) (drop i s)"
      by (simp add: H_def i_def)
    also from i have "i + 2 * H + 1 \<le> length pre" by (simp add: i0_def)
    then have "take (2 * H + 1) (drop i s) = take (2 * H + 1) (drop i pre)"
      unfolding s_def by (rule window_before_unknown)
    finally have "set (window s W q) \<subseteq> set pre"
      by (auto dest: in_set_takeD in_set_dropD)
    with pre have "set (window s W q) \<subseteq> dom Kyte_Doolittle_scale" by blast
    then show ?thesis using model by (rule value_calc_no_raise)
  qed
  have at: "Hydropathicity_value_calc (window s W p0) e Model = Inl (KeyError c)"
  proof -
    from hi have "p0 < int (length s) - W div 2" by simp
    from window_nonneg [OF W lo this]
    have "window s W p0 = take (2 * H + 1) (drop i0 s)"
      by (simp add: H_def p0_def)
    also have "\<dots> = drop i0 pre @ c # take (i0 + 2 * H - length pre) post"
      unfolding s_def using i0(1,2) by (rule window_at_unknown)
    finally have w: "window s W p0 = drop i0 pre @ c # take (i0 + 2 * H - length pre) post" .
    from pre have "set (drop i0 pre) \<subseteq> dom Kyte_Doolittle_scale"
      by (auto dest: in_set_dropD)
    from value_calc_raises [OF this c model] show ?thesis
      by (simp only: w)
  qed
  from before at
  have "array_loop s W e Model ([W div 2..p0 - 1] @ p0 # [p0 + 1..int (length s) - W div 2 - 1]) []
        = Inl (KeyError c)"
    by (intro array_loop_raises) blast+
  then show ?thesis
    by (simp add: Hydropathicity_array_gen_def Let_def arange_def split s_def [symmetric])
qed

subsection \<open>The geometric mean\<close>

lemma geometric_mid:
  assumes "0 < a" and "0 < b"
  shows "10 powr ((log 10 b - log 10 a) / 2 + log 10 a) = sqrt (a * b)"
proof -
  have "(log 10 b - log 10 a) / 2 + log 10 a = (log 10 a + log 10 b) * (1 / 2)"
    by (simp add: field_simps)
  then have "10 powr ((log 10 b - log 10 a) / 2 + log 10 a)
             = (10 powr (log 10 a + log 10 b)) powr (1 / 2)"
    by (simp only: powr_powr)
  also have "10 powr (log 10 a + log 10 b) = a * b"
    using assms by (simp add: powr_add)
  also have "(a * b) powr (1 / 2) = sqrt (a * b)"
    using assms by (simp add: powr_half_sqrt)
  finally show ?thesis .
qed

lemma geomspace_three:
  assumes "0 < a" and "0 < b"
  shows "geomspace a b 3 = Inr [a, sqrt (a * b), b]"
proof -
  have "linspace (log 10 a) (log 10 b) 3
        = [log 10 a, (log 10 b - log 10 a) / 2 + log 10 a, log 10 b]"
  proof -
    have "[0..<3] = [0, 1, 2::nat]" by code_simp
    then show ?thesis by (simp add: linspace_def)
  qed
  with assms geometric_mid [OF assms] show ?thesis
    by (simp add: geomspace_def)
qed

lemma sqrt_5000_bounds: "70.71 < sqrt 5000 \<and> sqrt 5000 < 70.72"
proof
  show "70.71 < sqrt 5000"
    by (rule real_less_rsqrt) (simp add: power2_eq_square)
  show "sqrt 5000 < 70.72"
    by (rule real_less_lsqrt) (simp_all add: power2_eq_square)
qed

subsection \<open>The preview loop\<close>

lemma py_slice_nat: "py_slice xs (int a) (int a + int n) = take n (drop a xs)"
proof (cases "a \<le> length xs")
  case True
  then have lo: "slice_bound (int (length xs)) (int a) = a"
    by (simp add: slice_bound_def Let_def)
  show ?thesis
  proof (cases "a + n \<le> length xs")
    case True
    then have "slice_bound (int (length xs)) (int a + int n) = a + n"
      by (simp add: slice_bound_def Let_def)
    with lo show ?thesis by (simp add: py_slice_def Let_def)
  next
    case False
    then have "slice_bound (int (length xs)) (int a + int n) = length xs"
      by (simp add: slice_bound_def Let_def)
    with lo False show ?thesis by (simp add: py_slice_def Let_def)
  qed
next
  case False
  then have "slice_bound (int (length xs)) (int a) = length xs"
    "slice_bound (int (length xs)) (int a + int n) = length xs"
    by (simp_all add: slice_bound_def Let_def)
  with False show ?thesis by (simp add: py_slice_def Let_def)
qed

lemma Preview_loop_stop:
  assumes "\<not> index < length Seq"
  shows "Preview_loop Seq index out = out"
  using assms by (subst Preview_loop.simps) (simp only: if_False)

lemma Preview_loop_groups:
  assumes "index = 10 * k"
  shows "Preview_loop Seq index out
         = out @ map (\<lambda>k. (if (10 * k) mod 60 = 0 then [CHR 0x0A] else [])
                             @ take 10 (drop (10 * k) Seq))
                      [k..<(length Seq + 9) div 10]"
  using assms
proof (induction Seq index out arbitrary: k rule: Preview_loop.induct)
  case (1 Seq index out)
  let ?g = "\<lambda>k. (if (10 * k) mod 60 = 0 then [CHR 0x0A] else []) @ take 10 (drop (10 * k) Seq)"
  let ?n = "(length Seq + 9) div 10"
  note index = \<open>index = 10 * k\<close>
  show ?case
  proof (cases "index < length Seq")
    case True
    then have "10 * k < length Seq" by (simp only: index)
    then have k: "k < ?n" by arith
    have next_index: "index + 10 = 10 * Suc k" by (simp only: index) simp
    let ?chunk = "if index mod 60 \<noteq> 0
                  then py_slice Seq (int index) (int index + 10)
                  else CHR 0x0A # py_slice Seq (int index) (int index + 10)"
    have slice: "py_slice Seq (int index) (int index + 10) = take 10 (drop index Seq)"
      using py_slice_nat [of Seq index 10] by simp
    have "?chunk = (if index mod 60 = 0 then [CHR 0x0A] else []) @ take 10 (drop index Seq)"
      by (simp add: slice)
    then have chunk: "?chunk = ?g k" by (simp only: index)
    have "Preview_loop Seq index out = Preview_loop Seq (index + 10) (out @ [?chunk])"
      using True by (subst Preview_loop.simps) (simp only: if_True)
    also have "\<dots> = (out @ [?chunk]) @ map ?g [Suc k..<?n]"
      using True next_index by (rule "1.IH")
    also have "\<dots> = (out @ [?g k]) @ map ?g [Suc k..<?n]"
      by (simp only: chunk)
    also have "\<dots> = out @ map ?g [k..<?n]"
      using k by (simp add: upt_conv_Cons)
    finally show ?thesis .
  next
    case False
    then have "\<not> 10 * k < length Seq" unfolding index .
    then have "?n \<le> k" by arith
    then have "[k..<?n] = []" by simp
    then show ?thesis
      by (simp only: Preview_loop_stop [OF False] list.map append_Nil2)
  qed
qed

section \<open>Even window sizes\<close>

text \<open>
  Claim C10. For every sequence, every even window size \<open>W \<ge> 2\<close>, every edge weight and
  either model, the profile builder returns the same positions and the same values (or the
  same error) as with window size \<open>W + 1\<close>: the range of centres and the slice depend on
  \<open>W\<close> through \<open>W div 2\<close> only, and the slice at a centre of the range has \<open>W + 1\<close>
  symbols.
\<close>

theorem array_gen_even_window:
  assumes "even W" and "2 \<le> W"
  shows "Hydropathicity_array_gen AA_seq W EDGE_weight model
           = Hydropathicity_array_gen AA_seq (W + 1) EDGE_weight model \<and>
         window AA_seq W index = window AA_seq (W + 1) index \<and>
         (W div 2 \<le> index \<and> index < int (length AA_seq) - W div 2 \<longrightarrow>
            length (window AA_seq W index) = nat (W + 1))"
proof -
  from \<open>even W\<close> have half: "(W + 1) div 2 = W div 2"
    by presburger
  have win: "window AA_seq (W + 1) p = window AA_seq W p" for p
    by (simp add: window_def half)
  have loop: "array_loop AA_seq (W + 1) EDGE_weight model ps acc
              = array_loop AA_seq W EDGE_weight model ps acc" for ps acc
    by (induction ps arbitrary: acc) (simp_all add: win split: sum.splits)
  have gen: "Hydropathicity_array_gen AA_seq W EDGE_weight model
             = Hydropathicity_array_gen AA_seq (W + 1) EDGE_weight model"
    by (simp add: Hydropathicity_array_gen_def half loop)
  have len: "length (window AA_seq W index) = nat (W + 1)"
    if lo: "W div 2 \<le> index" and hi: "index < int (length AA_seq) - W div 2"
  proof -
    from assms have W: "0 \<le> W" by simp
    define h where "h = W div 2"
    from assms have h: "0 \<le> h" "W = 2 * h" unfolding h_def by presburger+
    from lo hi have p: "h \<le> index" "index < int (length AA_seq) - h" by (simp_all add: h_def)
    have "window AA_seq W index = take (2 * nat h + 1) (drop (nat (index - h)) AA_seq)"
      using window_nonneg [OF W lo hi] by (simp only: h_def)
    moreover from h p have "2 * nat h + 1 \<le> length AA_seq - nat (index - h)" by linarith
    moreover from h have "2 * nat h + 1 = nat (W + 1)" by linarith
    ultimately show ?thesis by simp
  qed
  from gen win len show ?thesis by simp
qed

theorem array_gen_even_window_witness:
  "even (4::int) \<and> (2::int) \<le> 4 \<and>
   Hydropathicity_array_gen ''GAVLI'' 4 50 ''Linear Variation''
     = Hydropathicity_array_gen ''GAVLI'' (4 + 1) 50 ''Linear Variation'' \<and>
   window ''GAVLI'' 4 2 = window ''GAVLI'' (4 + 1) 2 \<and>
   (4::int) div 2 \<le> 2 \<and> (2::int) < int (length ''GAVLI'') - 4 div 2 \<and>
   length (window ''GAVLI'' 4 2) = nat (4 + 1)"
proof -
  have prem: "even (4::int)" "(2::int) \<le> 4" by simp_all
  note even_window = array_gen_even_window [OF prem, of "''GAVLI''" 50 "''Linear Variation''" 2]
  have pre: "(4::int) div 2 \<le> 2 \<and> (2::int) < int (length ''GAVLI'') - 4 div 2"
    by simp
  from even_window [THEN conjunct2, THEN conjunct2] pre
  have len: "length (window ''GAVLI'' 4 2) = nat (4 + 1)"
    by (rule mp)
  from prem even_window [THEN conjunct1] even_window [THEN conjunct2, THEN conjunct1] pre len
  show ?thesis by blast
qed

section \<open>Concrete scenario: GAVLI\<close>

text \<open>
  Claim C6. For the sequence GAVLI with window size 3, edge weight 100 and the linear
  model, the weight vector is \<open>[100, 100, 100]\<close>, the profile positions are \<open>[1, 2, 3]\<close>,
  and the value at position 1 is the plain average of the scores of G, A and V,
  \<open>(-0.4 + 1.8 + 4.2) / 3\<close>, rounded to three decimals: 1.867.
\<close>

theorem GAVLI_scenario:
  "Linear_weights 3 100 = [100, 100, 100] \<and>
   Hydropathicity_array_gen ''GAVLI'' 3 100 ''Linear Variation''
     = Inr ([Finite 1.867, Finite 3.267, Finite 4.167], [1, 2, 3]) \<and>
   np_round ((the (Kyte_Doolittle_scale CHR ''G'') + the (Kyte_Doolittle_scale CHR ''A'')
              + the (Kyte_Doolittle_scale CHR ''V'')) / 3) 3 = 1.867"
  by (simp add: Hydropathicity_array_gen_def Hydropathicity_value_calc_def
      avg_hydropathy_index_def Linear_weights_def linspace_def arange_def window_def py_slice_def
      slice_bound_def center_weight_def Kyte_Doolittle_scale_def np_round_def rint_def
      enumerate_eq_zip upto.simps)

section \<open>Sequences shorter than the window\<close>

text \<open>
  Claim C5. For every sequence shorter than the window size, the profile builder returns the
  empty profile (no positions, no values) and raises nothing. No window is scored, so the
  result does not depend on the symbols, the edge weight or the model.
\<close>

theorem short_sequence_empty_profile:
  assumes "int (length AA_seq) < Window_size"
  shows "Hydropathicity_array_gen AA_seq Window_size EDGE_weight model = Inr ([], [])"
proof -
  from assms have "int (length AA_seq) - Window_size div 2 - 1 < Window_size div 2"
    by linarith
  then have "arange (Window_size div 2) (int (length AA_seq) - Window_size div 2) = []"
    by (simp add: arange_def)
  then show ?thesis
    by (simp add: Hydropathicity_array_gen_def)
qed

theorem short_sequence_empty_profile_witness:
  "int (length ''GA'') < 3 \<and>
   Hydropathicity_array_gen ''GA'' 3 0 ''Exponential Variation'' = Inr ([], [])"
  using short_sequence_empty_profile [of "''GA''" 3 0 "''Exponential Variation''"] by simp

section \<open>Shape of the weight vector\<close>







section \<open>The windowed score\<close>



section \<open>Uniform scaling of the weights\<close>



section \<open>The profile: positions and values\<close>

text \<open>
  Claim C1. For every sequence of length \<open>L\<close> (its symbols in the scale, the edge weight
  positive, as the data model requires) and every window size \<open>W\<close>, the profile builder
  returns a profile whose positions are the integers of \<open>[W div 2, L - W div 2)\<close> in
  increasing order, so that its length is \<open>L - 2 * (W div 2)\<close> when that is positive and 0
  otherwise, and whose \<open>i\<close>-th value is the score of the window at the \<open>i\<close>-th position,
  \<open>W div 2 + i\<close>; for \<open>W \<ge> 0\<close> that window is the \<open>2 * (W div 2) + 1\<close> symbols from index
  \<open>i\<close> on, the ones centred at the position.
\<close>

theorem array_gen_profile:
  assumes "set AA_seq \<subseteq> dom Kyte_Doolittle_scale" and "0 < EDGE_weight"
  shows "\<exists>vals.
           Hydropathicity_array_gen AA_seq W EDGE_weight model
             = Inr (vals, [W div 2 .. int (length AA_seq) - W div 2 - 1]) \<and>
           length vals = nat (int (length AA_seq) - 2 * (W div 2)) \<and>
           (\<forall>i < length vals.
              Hydropathicity_value_calc (window AA_seq W (W div 2 + int i)) EDGE_weight model
                = Inr (vals ! i) \<and>
              (0 \<le> W \<longrightarrow>
                 window AA_seq W (W div 2 + int i)
                   = take (2 * nat (W div 2) + 1) (drop i AA_seq)))"
proof -
  define h where "h = W div 2"
  define L where "L = int (length AA_seq)"
  define score where
    "score p = projr (Hydropathicity_value_calc (window AA_seq W p) EDGE_weight model)" for p
  define vals where "vals = map score [h..L - h - 1]"
  have calc: "Hydropathicity_value_calc (window AA_seq W p) EDGE_weight model = Inr (score p)"
    for p
  proof -
    have "set (window AA_seq W p) \<subseteq> dom Kyte_Doolittle_scale"
      using set_window [of AA_seq W p] assms(1) by blast
    from value_calc_returns [OF this assms(2), of model] show ?thesis
      by (auto simp: score_def)
  qed
  have "array_loop AA_seq W EDGE_weight model [h..L - h - 1] [] = Inr ([] @ map score [h..L - h - 1])"
    by (rule array_loop_returns) (simp add: calc)
  then have gen: "Hydropathicity_array_gen AA_seq W EDGE_weight model = Inr (vals, [h..L - h - 1])"
    by (simp add: Hydropathicity_array_gen_def Let_def arange_def h_def L_def vals_def)
  have len: "length vals = nat (L - 2 * h)"
    by (simp add: vals_def)
  have nth: "Hydropathicity_value_calc (window AA_seq W (h + int i)) EDGE_weight model
               = Inr (vals ! i) \<and>
             (0 \<le> W \<longrightarrow> window AA_seq W (h + int i) = take (2 * nat h + 1) (drop i AA_seq))"
    if "i < length vals" for i
  proof -
    from that len have i: "h + int i \<le> L - h - 1" by linarith
    then have "vals ! i = score (h + int i)"
      using that by (simp add: vals_def)
    moreover have "window AA_seq W (h + int i) = take (2 * nat h + 1) (drop i AA_seq)" if "0 \<le> W"
      using window_nonneg [OF that, of "h + int i" AA_seq] i by (simp add: h_def L_def)
    ultimately show ?thesis by (simp add: calc)
  qed
  from gen len nth show ?thesis
    unfolding h_def L_def by blast
qed

theorem array_gen_profile_witness:
  "set ''GAVLI'' \<subseteq> dom Kyte_Doolittle_scale \<and> (0::real) < 100 \<and>
   (\<exists>vals.
      Hydropathicity_array_gen ''GAVLI'' 3 100 ''Linear Variation''
        = Inr (vals, [3 div 2 .. int (length ''GAVLI'') - 3 div 2 - 1]) \<and>
      length vals = nat (int (length ''GAVLI'') - 2 * (3 div 2)) \<and>
      (\<forall>i < length vals.
         Hydropathicity_value_calc (window ''GAVLI'' 3 (3 div 2 + int i)) 100 ''Linear Variation''
           = Inr (vals ! i) \<and>
         ((0::int) \<le> 3 \<longrightarrow>
            window ''GAVLI'' 3 (3 div 2 + int i)
              = take (2 * nat (3 div 2) + 1) (drop i ''GAVLI''))))"
proof -
  have "set ''GAVLI'' \<subseteq> dom Kyte_Doolittle_scale"
    by (simp add: Kyte_Doolittle_scale_def)
  moreover note array_gen_profile [OF this, of 100 3 "''Linear Variation''"]
  ultimately show ?thesis by simp
qed

section \<open>Symbols outside the scale\<close>

text \<open>
  Claim C4, as stated: if a symbol of a scored segment is absent from the scale, the score
  calculator fails with an error that identifies the offending symbol and its position.
  The error the code raises is the \<^verbatim>\<open>KeyError\<close> of the dictionary lookup: it carries the
  symbol and nothing else, so the same error comes out wherever the symbol stands.
\<close>

theorem unknown_residue_position_counterexample:
  "Hydropathicity_value_calc ''XAA'' 100 ''Linear Variation'' = Inl (KeyError CHR ''X'') \<and>
   Hydropathicity_value_calc ''AAX'' 100 ''Linear Variation'' = Inl (KeyError CHR ''X'') \<and>
   Hydropathicity_array_gen ''XAAAA'' 3 100 ''Linear Variation'' = Inl (KeyError CHR ''X'') \<and>
   Hydropathicity_array_gen ''AAAAX'' 3 100 ''Linear Variation'' = Inl (KeyError CHR ''X'')"
  by (simp add: Hydropathicity_array_gen_def Hydropathicity_value_calc_def
      avg_hydropathy_index_def Linear_weights_def linspace_def arange_def window_def py_slice_def
      slice_bound_def center_weight_def Kyte_Doolittle_scale_def upto.simps)

text \<open>
  Claim C4, amended: if a symbol of a scored segment is absent from the scale, the score
  calculator raises a \<^verbatim>\<open>KeyError\<close> that carries the first such symbol of the segment (and
  not its position), and substitutes no default score; the profile builder, on a sequence
  long enough for one window, lets that error through unchanged and returns no profile:
  the error carries the first symbol of the sequence that is absent from the scale. (The
  weights are computed first: under the exponential model an edge weight of zero raises a
  \<^verbatim>\<open>ValueError\<close> before any symbol is looked up.)
\<close>

theorem unknown_residue_KeyError:
  assumes "set pre \<subseteq> dom Kyte_Doolittle_scale" and "Kyte_Doolittle_scale c = None"
    and "Model = ''Linear Variation'' \<or> edgeWeight \<noteq> 0"
  shows "Hydropathicity_value_calc (pre @ c # post) edgeWeight Model = Inl (KeyError c) \<and>
         (0 \<le> W \<and> 2 * (W div 2) < int (length (pre @ c # post)) \<longrightarrow>
            Hydropathicity_array_gen (pre @ c # post) W edgeWeight Model = Inl (KeyError c))"
  using value_calc_raises [OF assms] array_gen_raises [OF assms] by blast

theorem unknown_residue_KeyError_witness:
  "set ''GA'' \<subseteq> dom Kyte_Doolittle_scale \<and> Kyte_Doolittle_scale CHR ''X'' = None \<and>
   (50::real) \<noteq> 0 \<and>
   Hydropathicity_value_calc (''GA'' @ CHR ''X'' # ''LI'') 50 ''Exponential Variation''
     = Inl (KeyError CHR ''X'') \<and>
   (0::int) \<le> 3 \<and> 2 * (3 div 2) < int (length (''GA'' @ CHR ''X'' # ''LI'')) \<and>
   Hydropathicity_array_gen (''GA'' @ CHR ''X'' # ''LI'') 3 50 ''Exponential Variation''
     = Inl (KeyError CHR ''X'')"
proof -
  have "set ''GA'' \<subseteq> dom Kyte_Doolittle_scale" and "Kyte_Doolittle_scale CHR ''X'' = None"
    by (simp_all add: Kyte_Doolittle_scale_def)
  moreover note unknown_residue_KeyError [OF this, of "''Exponential Variation''" 50 "''LI''" 3]
  ultimately show ?thesis by simp
qed

section \<open>Concrete scenario: the exponential weights for edge weight 50\<close>

text \<open>
  Claim C8, as stated: for window size 3, edge weight 50 and the exponential model, the
  rising half of the weight vector is \<open>[50, ~70.71, 100]\<close> and the full vector is
  \<open>[50, 70.71, 100]\<close>. A window of 3 has a rising half of \<open>3 div 2 + 1 = 2\<close> entries: the
  rising half is \<open>[50, 100]\<close> and the full, symmetric vector is \<open>[50, 100, 50]\<close>.
\<close>

theorem exponential_window_3_counterexample:
  "geomspace 50 center_weight (3 div 2 + 1) = Inr [50, 100] \<and>
   Exponential_weights 3 50 = Inr [50, 100, 50] \<and>
   Exponential_weights 3 50 \<noteq> Inr [50, sqrt (50 * 100), 100]"
  by (simp add: Exponential_weights_def geomspace_def linspace_def center_weight_def)

text \<open>
  Claim C8, amended: for edge weight 50 and the exponential model, window size 3 has the
  rising half \<open>[50, 100]\<close> and the weight vector \<open>[50, 100, 50]\<close>; the rising half
  \<open>[50, geometric mean of 50 and 100, 100]\<close>, about 70.71 in the middle and with equal
  consecutive ratios, is that of window size 5, whose weight vector is
  \<open>[50, ~70.71, 100, ~70.71, 50]\<close>.
\<close>

theorem exponential_edge_50_scenario:
  "geomspace 50 center_weight (3 div 2 + 1) = Inr [50, 100] \<and>
   Exponential_weights 3 50 = Inr [50, 100, 50] \<and>
   geomspace 50 center_weight (5 div 2 + 1) = Inr [50, sqrt (50 * 100), 100] \<and>
   Exponential_weights 5 50 = Inr [50, sqrt (50 * 100), 100, sqrt (50 * 100), 50] \<and>
   70.71 < sqrt (50 * 100) \<and> sqrt (50 * 100) < 70.72 \<and>
   sqrt (50 * 100) / 50 = 100 / sqrt (50 * 100)"
proof -
  have three: "geomspace 50 center_weight (3 div 2 + 1) = Inr [50, 100]"
    "Exponential_weights 3 50 = Inr [50, 100, 50]"
    by (simp_all add: Exponential_weights_def geomspace_def linspace_def center_weight_def)
  have up: "geomspace 50 center_weight 3 = Inr [50, sqrt 5000, 100]"
    using geomspace_three [of 50 center_weight] by (simp add: center_weight_def)
  have down: "geomspace center_weight 50 3 = Inr [100, sqrt 5000, 50]"
    using geomspace_three [of center_weight 50] by (simp add: center_weight_def)
  have five: "Exponential_weights 5 50 = Inr [50, sqrt 5000, 100, sqrt 5000, 50]"
    using up down by (simp add: Exponential_weights_def)
  have "sqrt 5000 * sqrt 5000 = 5000" by simp
  then have ratio: "sqrt 5000 / 50 = 100 / sqrt 5000"
    by (simp add: field_simps)
  from three up five ratio sqrt_5000_bounds show ?thesis by simp
qed

section \<open>The sequence preview\<close>

text \<open>
  Claim C9, as stated: the preview is the sequence cut into groups of 10 symbols joined by
  4 spaces, with a line break before the group that starts at each residue index that is a
  positive multiple of 60, and nowhere else. The code tests \<open>index % 60 != 0\<close>, which index
  0 fails too: the preview of a non-empty sequence starts with a line break.
\<close>

theorem preview_leading_break_counterexample:
  "Preview_Sequence ''A'' = [CHR 0x0A, CHR ''A''] \<and>
   preview_chunks (\<lambda>i. 0 < i \<and> i mod 60 = 0) ''A'' = ''A'' \<and>
   Preview_Sequence ''A'' \<noteq> preview_chunks (\<lambda>i. 0 < i \<and> i mod 60 = 0) ''A''"
proof -
  have "Preview_Sequence ''A'' = [CHR 0x0A, CHR ''A'']"
    by code_simp
  moreover have "preview_chunks (\<lambda>i. 0 < i \<and> i mod 60 = 0) ''A'' = ''A''"
    by (simp add: preview_chunks_def)
  ultimately show ?thesis by simp
qed

text \<open>
  Claim C9, amended: for every sequence, the preview is the sequence cut into groups of 10
  symbols joined by 4 spaces, with a line break at the head of the group that starts at
  each residue index that is a multiple of 60, index 0 included, and nowhere else.
\<close>

theorem Preview_Sequence_chunks:
  "Preview_Sequence Seq = preview_chunks (\<lambda>i. i mod 60 = 0) Seq"
  using Preview_loop_groups [of 0 0 Seq "[]"]
  by (simp add: Preview_Sequence_def preview_chunks_def)

end
